theory Spec2Isabelle
  imports Main "HOL-Library.Char_ord" "HOL-Library.List_Lexorder" "HOL-Library.Multiset"
begin

section \<open>Package ei: entities and sweeping (ei.go)\<close>




text \<open>
  A run-time panic of the Go program (an index or a slice bound out of range) is the
  value \<open>None\<close>.

  \<^verbatim>\<open>Sweep\<close> ranges over the slice \<^verbatim>\<open>*xs\<close>: the slice header is evaluated once, so the
  number of iterations is the length at entry, and iteration \<open>i\<close> reads element \<open>i\<close> of the
  shared backing array when it is reached. The loop state is the backing array \<open>xs\<close>,
  the range index \<open>i\<close> and the write index \<open>j\<close>. The method \<^verbatim>\<open>Alive\<close> of the element
  type is the parameter \<open>alive\<close>.
\<close>

function sweep_loop :: "('e \<Rightarrow> bool) \<Rightarrow> 'e list \<Rightarrow> nat \<Rightarrow> nat \<Rightarrow> ('e list \<times> nat) option" where
  "sweep_loop alive xs i j =
     (if i < length xs then
        (let x = xs ! i in
         if alive x then
           (if j < length xs then sweep_loop alive (xs[j := x]) (Suc i) (Suc j) else None)
         else sweep_loop alive xs (Suc i) j)
      else Some (xs, j))"
  by pat_completeness auto
termination
  by (relation "measure (\<lambda>(alive, xs, i, j). length xs - i)") auto

text \<open>\<^verbatim>\<open>*xs = (*xs)[:j]\<close>: the reslice panics when \<open>j\<close> exceeds the slice.\<close>

definition Sweep :: "('e \<Rightarrow> bool) \<Rightarrow> 'e list \<Rightarrow> 'e list option" where
  "Sweep alive xs =
     (case sweep_loop alive xs 0 0 of
        None \<Rightarrow> None
      | Some (ys, j) \<Rightarrow> if j \<le> length ys then Some (take j ys) else None)"

text \<open>
  \<^verbatim>\<open>SweepEach\<close> is the same loop with the call \<^verbatim>\<open>pred(i, x)\<close> after the write and the
  increment. The callback is code of the caller: it holds the element, which is a
  reference with the methods \<^verbatim>\<open>Kill\<close> and \<^verbatim>\<open>Alive\<close>, and it may hold the pointer \<^verbatim>\<open>xs\<close>; so
  it can change what \<^verbatim>\<open>Alive\<close> answers for any element, the cells of any array and the
  slice that \<^verbatim>\<open>xs\<close> points to. The memory is therefore explicit: the cells that hold
  elements, by address; the slice header stored in \<^verbatim>\<open>*xs\<close> (the address of its first cell,
  its length and its capacity); and the rest, which holds what the elements refer to and
  the variables of the caller. \<^verbatim>\<open>Alive\<close> reads the rest; the callback is any function on
  the memory.
\<close>

record slice_header =
  ptr :: nat
  len :: nat
  cap :: nat

record ('e, 'u) memory =
  cells :: "nat \<Rightarrow> 'e"
  xs_val :: slice_header
  rest :: 'u



text \<open>The elements of the slice that \<^verbatim>\<open>*xs\<close> holds, and the elements of the \<open>n\<close> cells from
  the address \<open>p\<close> on.\<close>

definition view :: "nat \<Rightarrow> nat \<Rightarrow> ('e, 'u) memory \<Rightarrow> 'e list" where
  "view p n m = map (\<lambda>k. cells m (p + k)) [0..<n]"







section \<open>Command accessor: library functions the generator calls\<close>

text \<open>
  Strings are Go strings: sequences of bytes, UTF-8 where they hold text. The functions
  of this section belong to the Go standard library; each is written out from its
  library source as far as the generator can observe it.
\<close>

abbreviation NL :: string where
  "NL \<equiv> [CHR 0x0A]"

abbreviation TAB :: string where
  "TAB \<equiv> [CHR 0x09]"

text \<open>
  \<^verbatim>\<open>strings.TrimSpace\<close> removes every leading and every trailing code point that
  \<^verbatim>\<open>unicode.IsSpace\<close> accepts: U+0009 to U+000D, U+0020, U+0085, U+00A0, U+1680, U+2000 to
  U+200A, U+2028, U+2029, U+202F, U+205F and U+3000, here in their UTF-8 encodings. A
  byte sequence that is no valid encoding decodes to U+FFFD, which is no space.
\<close>

definition white_space :: "string list" where
  "white_space =
     [[CHR 0x09], [CHR 0x0A], [CHR 0x0B], [CHR 0x0C], [CHR 0x0D], [CHR 0x20],
      [CHR 0xC2, CHR 0x85], [CHR 0xC2, CHR 0xA0],
      [CHR 0xE1, CHR 0x9A, CHR 0x80],
      [CHR 0xE2, CHR 0x80, CHR 0x80], [CHR 0xE2, CHR 0x80, CHR 0x81],
      [CHR 0xE2, CHR 0x80, CHR 0x82], [CHR 0xE2, CHR 0x80, CHR 0x83],
      [CHR 0xE2, CHR 0x80, CHR 0x84], [CHR 0xE2, CHR 0x80, CHR 0x85],
      [CHR 0xE2, CHR 0x80, CHR 0x86], [CHR 0xE2, CHR 0x80, CHR 0x87],
      [CHR 0xE2, CHR 0x80, CHR 0x88], [CHR 0xE2, CHR 0x80, CHR 0x89],
      [CHR 0xE2, CHR 0x80, CHR 0x8A],
      [CHR 0xE2, CHR 0x80, CHR 0xA8], [CHR 0xE2, CHR 0x80, CHR 0xA9],
      [CHR 0xE2, CHR 0x80, CHR 0xAF], [CHR 0xE2, CHR 0x81, CHR 0x9F],
      [CHR 0xE3, CHR 0x80, CHR 0x80]]"

text \<open>The encoding in \<open>ps\<close> that \<open>s\<close> starts with, if any; an empty entry is never one.\<close>

definition leading :: "string list \<Rightarrow> string \<Rightarrow> string option" where
  "leading ps s = List.find (\<lambda>p. p \<noteq> [] \<and> take (length p) s = p) ps"

function strip :: "string list \<Rightarrow> string \<Rightarrow> string" where
  "strip ps s = (case leading ps s of None \<Rightarrow> s | Some p \<Rightarrow> strip ps (drop (length p) s))"
  by pat_completeness auto
termination
proof (relation "measure (\<lambda>(ps, s). length s)")
  show "wf (measure (\<lambda>(ps, s). length s))" by simp
next
  fix ps :: "string list" and s p :: string
  assume "leading ps s = Some p"
  then have pne: "p \<noteq> []" and tk: "take (length p) s = p"
    by (auto simp: leading_def find_Some_iff)
  have "length (take (length p) s) = length p"
    using tk by simp
  then have "length p \<le> length s"
    by simp
  with pne have "length s - length p < length s"
    by (cases p) auto
  then show "((ps, drop (length p) s), (ps, s)) \<in> measure (\<lambda>(ps, s). length s)"
    by simp
qed

definition TrimSpace :: "string \<Rightarrow> string" where
  "TrimSpace s = rev (strip (map rev white_space) (rev (strip white_space s)))"

text \<open>\<^verbatim>\<open>strings.Split(s, sep)\<close> for a separator of one byte: the pieces between the
  separators, one more than there are separators.\<close>

fun Split :: "string \<Rightarrow> char \<Rightarrow> string list" where
  "Split [] sep = [[]]"
| "Split (c # cs) sep =
     (if c = sep then [] # Split cs sep
      else (case Split cs sep of [] \<Rightarrow> [[c]] | t # ts \<Rightarrow> (c # t) # ts))"

text \<open>\<^verbatim>\<open>strings.Contains(s, ".")\<close>.\<close>

definition Contains_dot :: "string \<Rightarrow> bool" where
  "Contains_dot s = (CHR ''.'' \<in> set s)"

text \<open>
  \<^verbatim>\<open>path.Base\<close>: the last element of a slash-separated path. Trailing slashes are
  removed first; the empty path gives a dot and a path of slashes only gives a slash.
\<close>

definition Base :: "string \<Rightarrow> string" where
  "Base p =
     (if p = [] then ''.''
      else
        (let p1 = rev (dropWhile (\<lambda>c. c = CHR ''/'') (rev p));
             p2 = rev (takeWhile (\<lambda>c. c \<noteq> CHR ''/'') (rev p1))
         in if p2 = [] then ''/'' else p2))"

text \<open>\<^verbatim>\<open>strconv.Itoa\<close> on a count, which is never negative: its decimal digits.\<close>

definition digit :: "nat \<Rightarrow> char" where
  "digit d = ''0123456789'' ! (d mod 10)"

fun Itoa :: "nat \<Rightarrow> string" where
  "Itoa n = (if n < 10 then [digit n] else Itoa (n div 10) @ [digit n])"

text \<open>
  \<^verbatim>\<open>strconv.Quote\<close> of a string that needs no escape, as an import path that the go tool
  accepts is: the string between double quotes. The generator takes the quoting function
  as a parameter; this is its value on such paths.
\<close>

definition quote_plain :: "string \<Rightarrow> string" where
  "quote_plain s = [CHR 0x22] @ s @ [CHR 0x22]"

section \<open>Command accessor: the data the generator works on\<close>

text \<open>
  A \<^verbatim>\<open>*types.Package\<close>: the pointer itself, which the qualifier compares, and what the
  methods \<^verbatim>\<open>Path()\<close> and \<^verbatim>\<open>Name()\<close> return.
\<close>

record Package =
  addr :: nat
  Path :: string
  Name :: string

text \<open>
  \<^verbatim>\<open>types.TypeString(typ, qf)\<close> writes a type from left to right: fixed text (stars,
  brackets, keywords, names of basic types and of type parameters) and, for each named
  type, the name of the type after the prefix that \<open>qf\<close> gives for the package of the
  name. A name of the universe scope has no package, and \<open>qf\<close> is not asked. A type is
  represented by what that traversal meets, in its order.
\<close>

datatype TypeToken = Text string | TypeName "Package option" string

type_synonym go_type = "TypeToken list"

text \<open>
  The syntax tree, as far as \<^verbatim>\<open>generate\<close> looks at it. A field carries the type that
  \<^verbatim>\<open>TypesInfo.TypeOf\<close> records for its type expression, and for its tag literal the value
  that \<^verbatim>\<open>reflect.StructTag(...).Get("accessor")\<close> extracts from the unquoted literal (the
  empty string when the literal has no such key); \<open>None\<close> is a field without a tag
  literal.
\<close>

record ast_Field =
  Names :: "string list"
  Type :: go_type
  Tag :: "string option"

datatype ast_Expr = StructType "ast_Field list" | OtherExpr

datatype ast_Spec = TypeSpec string "string list list option" ast_Expr | OtherSpec

datatype token = token_IMPORT | token_CONST | token_TYPE | token_VAR

datatype ast_Decl = GenDecl token "ast_Spec list" | FuncDecl

type_synonym ast_File = "ast_Decl list"

record structField =
  typeSpecName :: string
  typeSpecTypeParams :: "string list list option"
  name :: string
  typ' :: go_type
  tag :: "string option"

text \<open>
  How the process can end early: \<^verbatim>\<open>log.Fatal\<close> with its message, which exits with status
  1, or a run-time panic.
\<close>

datatype failure = Fatal string | Panic string

text \<open>
  The generator. \<open>w\<close> says which of the two buffers \<^verbatim>\<open>g.w\<close> points to; it is nil until
  the first statement of \<^verbatim>\<open>generate\<close> sets it, and nothing is printed before. The fields
  of \<^verbatim>\<open>g.pkg\<close> that are read are kept one by one. A count is a Go \<^verbatim>\<open>int\<close> that only
  grows by one per package met, so it stays far from the bound of its type.
\<close>

datatype writer = Header | Accessors

record generator =
  w :: writer
  header :: string
  accessors :: string
  pkg_Name :: string
  pkg_Types :: Package
  pkg_Syntax :: "ast_File list"
  pkgNameCounts :: "string \<rightharpoonup> nat"
  pkgNames :: "string \<rightharpoonup> string"

section \<open>Command accessor: the generator\<close>

text \<open>\<^verbatim>\<open>g.printf\<close>, given the text that \<^verbatim>\<open>fmt.Fprintf\<close> produces from the format and its
  operands: every format of the program has only \<^verbatim>\<open>%s\<close> verbs and string operands.\<close>

definition printf :: "generator \<Rightarrow> string \<Rightarrow> generator" where
  "printf g s =
     (case w g of
        Header \<Rightarrow> g\<lparr>header := header g @ s\<rparr>
      | Accessors \<Rightarrow> g\<lparr>accessors := accessors g @ s\<rparr>)"

text \<open>Reading a Go map of counts: a missing key reads as zero.\<close>

definition count_of :: "(string \<rightharpoonup> nat) \<Rightarrow> string \<Rightarrow> nat" where
  "count_of m k = (case m k of None \<Rightarrow> 0 | Some c \<Rightarrow> c)"

definition qualifier :: "generator \<Rightarrow> Package \<Rightarrow> string \<times> generator" where
  "qualifier g pkg =
     (if addr pkg = addr (pkg_Types g) then ('''', g)
      else
        (case pkgNames g (Path pkg) of
           Some nm \<Rightarrow> (nm, g)
         | None \<Rightarrow>
             (let count = count_of (pkgNameCounts g) (Name pkg);
                  nm = (if count > 0 then Name pkg @ Itoa count else Name pkg);
                  g1 = g\<lparr>pkgNameCounts :=
                          (pkgNameCounts g)(Name pkg \<mapsto> count_of (pkgNameCounts g) (Name pkg) + 1)\<rparr>;
                  g2 = g1\<lparr>pkgNames := (pkgNames g1)(Path pkg \<mapsto> nm)\<rparr>
              in (nm, g2))))"

fun TypeString :: "generator \<Rightarrow> go_type \<Rightarrow> string \<times> generator" where
  "TypeString g [] = ('''', g)"
| "TypeString g (Text s # ts) = (let (r, g1) = TypeString g ts in (s @ r, g1))"
| "TypeString g (TypeName None n # ts) = (let (r, g1) = TypeString g ts in (n @ r, g1))"
| "TypeString g (TypeName (Some pkg) n # ts) =
     (let (q, g1) = qualifier g pkg;
          (r, g2) = TypeString g1 ts
      in ((if q \<noteq> '''' then q @ ''.'' else '''') @ n @ r, g2))"

text \<open>The two formats of \<^verbatim>\<open>printGetter\<close> and \<^verbatim>\<open>printSetter\<close> with their operands in
  place.\<close>

definition getter_text :: "string \<Rightarrow> string \<Rightarrow> string \<Rightarrow> string \<Rightarrow> string" where
  "getter_text recv method ty field =
     ''func (x *'' @ recv @ '') '' @ method @ ''() '' @ ty @ '' { return x.'' @ field @ '' }'' @ NL"

definition setter_text :: "string \<Rightarrow> string \<Rightarrow> string \<Rightarrow> string \<Rightarrow> string" where
  "setter_text recv method ty field =
     ''func (x *'' @ recv @ '') '' @ method @ ''(value '' @ ty @ '') { x.'' @ field @ '' = value }'' @ NL"

definition printGetter :: "generator \<Rightarrow> string \<Rightarrow> string \<Rightarrow> string \<Rightarrow> string \<Rightarrow> generator" where
  "printGetter g recv method ty field = printf g (getter_text recv method ty field)"

definition printSetter :: "generator \<Rightarrow> string \<Rightarrow> string \<Rightarrow> string \<Rightarrow> string \<Rightarrow> generator" where
  "printSetter g recv method ty field = printf g (setter_text recv method ty field)"

text \<open>The receiver: the name of the type and, for a generic type, every name of every
  entry of its parameter list followed by a comma, between brackets.\<close>

definition receiver :: "structField \<Rightarrow> string" where
  "receiver f =
     (case typeSpecTypeParams f of
        None \<Rightarrow> typeSpecName f
      | Some params \<Rightarrow>
          typeSpecName f @ ''['' @ concat (map (\<lambda>names. concat (map (\<lambda>n. n @ '','') names)) params)
            @ '']'')"

definition marker :: "string \<Rightarrow> bool" where
  "marker arg = (arg = ''get'' \<or> arg = ''set'' \<or> arg = ''Get'' \<or> arg = ''Set'')"

text \<open>The first loop over the tokens of the tag; \<open>method\<close> is the variable of that name.\<close>

fun method_loop :: "string \<Rightarrow> string list \<Rightarrow> failure + string" where
  "method_loop method [] = Inr method"
| "method_loop method (arg # args) =
     (if marker arg then method_loop method args
      else if method \<noteq> ''''
        then Inl (Fatal ''error: cannot define multiple accessor names within a tag'')
        else method_loop arg args)"

text \<open>
  The default name. \<^verbatim>\<open>[]rune(method)\<close> decodes the name, and \<^verbatim>\<open>chars[0]\<close> panics on an empty
  one. The first code point is moved by \<^verbatim>\<open>'A' - 'a'\<close> when it lies between \<^verbatim>\<open>'a'\<close> and
  \<^verbatim>\<open>'z'\<close>, which is when the first byte does; the name is an identifier, so decoding and
  encoding leave its other bytes as they are.
\<close>

definition upper_first :: "string \<Rightarrow> failure + string" where
  "upper_first method =
     (case method of
        [] \<Rightarrow> Inl (Panic ''index out of range'')
      | c # cs \<Rightarrow>
          Inr ((if CHR ''a'' \<le> c \<and> c \<le> CHR ''z'' then char_of (of_char c - (32::nat)) else c) # cs))"

text \<open>The block that builds the method name: the loop, then the default when the loop
  leaves the name empty.\<close>

definition method_name :: "string \<Rightarrow> string list \<Rightarrow> failure + string" where
  "method_name field args =
     (case method_loop '''' args of
        Inl e \<Rightarrow> Inl e
      | Inr m \<Rightarrow> if m = '''' then upper_first field else Inr m)"

text \<open>The second loop over the tokens: one method per marker, in the order of the tag.\<close>

fun print_loop ::
  "generator \<Rightarrow> string \<Rightarrow> string \<Rightarrow> string \<Rightarrow> string \<Rightarrow> string list \<Rightarrow> generator" where
  "print_loop g recv method ty field [] = g"
| "print_loop g recv method ty field (arg # args) =
     (if arg = ''get'' \<or> arg = ''Get''
        then print_loop (printGetter g recv (arg @ method) ty field) recv method ty field args
      else if arg = ''set'' \<or> arg = ''Set''
        then print_loop (printSetter g recv (arg @ method) ty field) recv method ty field args
      else print_loop g recv method ty field args)"

definition printAccessors :: "generator \<Rightarrow> structField \<Rightarrow> failure + generator" where
  "printAccessors g f =
     (case tag f of
        None \<Rightarrow> Inr g
      | Some t \<Rightarrow>
          (let tg = TrimSpace t in
           if tg = '''' then Inr g
           else
             (let args = Split tg (CHR '','') in
              if length args = 0 then Inr g
              else
                (let recv = receiver f in
                 case method_name (name f) args of
                   Inl e \<Rightarrow> Inl e
                 | Inr method \<Rightarrow>
                     (let (ty, g1) = TypeString g (typ' f);
                          field = name f;
                          g2 = printf g1 (''// '' @ recv @ ''.'' @ field @ '': '' @ tg @ NL)
                      in Inr (print_loop g2 recv method ty field args))))))"

text \<open>A \<^verbatim>\<open>for ... range\<close> over a slice whose body may end the process.\<close>

fun for_each :: "('s \<Rightarrow> 'a \<Rightarrow> failure + 's) \<Rightarrow> 's \<Rightarrow> 'a list \<Rightarrow> failure + 's" where
  "for_each body s [] = Inr s"
| "for_each body s (x # xs) =
     (case body s x of Inl e \<Rightarrow> Inl e | Inr s1 \<Rightarrow> for_each body s1 xs)"

text \<open>The nested loops of \<^verbatim>\<open>generate\<close>, from the innermost: the names of a field, the
  fields of a struct, the specifications of a declaration, the declarations of a file.
  \<^verbatim>\<open>spec.(*ast.TypeSpec)\<close> panics on a specification of another kind.\<close>

definition loop_names :: "string \<Rightarrow> string list list option \<Rightarrow> generator \<Rightarrow> ast_Field \<Rightarrow> failure + generator" where
  "loop_names tname tparams g field =
     for_each (\<lambda>g1 n. printAccessors g1
                 \<lparr>typeSpecName = tname, typeSpecTypeParams = tparams, name = n,
                  typ' = Type field, tag = Tag field\<rparr>)
        g (Names field)"

definition loop_fields :: "generator \<Rightarrow> ast_Spec \<Rightarrow> failure + generator" where
  "loop_fields g spec =
     (case spec of
        OtherSpec \<Rightarrow> Inl (Panic ''interface conversion'')
      | TypeSpec tname tparams ty \<Rightarrow>
          (case ty of
             OtherExpr \<Rightarrow> Inr g
           | StructType flds \<Rightarrow> for_each (loop_names tname tparams) g flds))"

definition loop_specs :: "generator \<Rightarrow> ast_Decl \<Rightarrow> failure + generator" where
  "loop_specs g decl =
     (case decl of
        FuncDecl \<Rightarrow> Inr g
      | GenDecl tok specs \<Rightarrow> if tok \<noteq> token_TYPE then Inr g else for_each loop_fields g specs)"

definition loop_decls :: "generator \<Rightarrow> ast_File \<Rightarrow> failure + generator" where
  "loop_decls g file = for_each loop_specs g file"

definition generate_accessors :: "generator \<Rightarrow> failure + generator" where
  "generate_accessors g = for_each loop_decls (g\<lparr>w := Accessors\<rparr>) (pkg_Syntax g)"

text \<open>
  The import statements. \<^verbatim>\<open>range g.pkgNames\<close> visits the entries of the map in an order
  that the Go run time chooses anew at each loop; the loop takes the order as the list
  \<open>entries\<close>. \<open>quote\<close> is \<^verbatim>\<open>strconv.Quote\<close>.
\<close>

definition import_stmt :: "(string \<Rightarrow> string) \<Rightarrow> string \<Rightarrow> string \<Rightarrow> string" where
  "import_stmt quote pkgPath rename =
     (let rename1 = (if rename = Base pkgPath then '''' else rename)
      in TAB @ rename1 @ '' '' @ quote pkgPath @ NL)"

fun import_loop ::
  "(string \<Rightarrow> string) \<Rightarrow> (string \<times> string) list \<Rightarrow> string list \<Rightarrow> string list
     \<Rightarrow> string list \<times> string list" where
  "import_loop quote [] stdImports extImports = (stdImports, extImports)"
| "import_loop quote ((pkgPath, rename) # entries) stdImports extImports =
     (let stmt = import_stmt quote pkgPath rename
      in if Contains_dot pkgPath
         then import_loop quote entries stdImports (extImports @ [stmt])
         else import_loop quote entries (stdImports @ [stmt]) extImports)"

text \<open>
  The header. \<^verbatim>\<open>sort.Strings\<close> orders by bytes, which is the order of \<open>string\<close> here.
  \<^verbatim>\<open>g.printf(stmt)\<close> has the statement as its format: an import path and a package
  name hold no percent sign, so the statement is printed as it is.
\<close>

definition generate_header :: "(string \<Rightarrow> string) \<Rightarrow> (string \<times> string) list \<Rightarrow> generator \<Rightarrow> generator" where
  "generate_header quote entries g =
     (let g1 = g\<lparr>w := Header\<rparr>;
          g2 = printf g1 (''// Code generated by accessor; DO NOT EDIT.'' @ NL);
          g3 = printf g2 NL;
          g4 = printf g3 (''package '' @ pkg_Name g3);
          g5 = printf g4 NL;
          (stdImports, extImports) = import_loop quote entries [] [];
          g6 = printf g5 (''import ('' @ NL);
          g7 = fold (\<lambda>stmt h. printf h stmt) (sort stdImports) g6;
          g8 = printf g7 NL;
          g9 = fold (\<lambda>stmt h. printf h stmt) (sort extImports) g8
      in printf g9 ('')'' @ NL))"

text \<open>\<open>range_order\<close> is the choice of the run time: the order in which a range loop
  visits a map.\<close>

definition generate ::
  "(string \<Rightarrow> string) \<Rightarrow> ((string \<rightharpoonup> string) \<Rightarrow> (string \<times> string) list) \<Rightarrow> generator
     \<Rightarrow> failure + generator" where
  "generate quote range_order g =
     (case generate_accessors g of
        Inl e \<Rightarrow> Inl e
      | Inr g1 \<Rightarrow> Inr (generate_header quote (range_order (pkgNames g1)) g1))"

text \<open>
  \<^verbatim>\<open>g.format\<close>. \<open>Source\<close> is \<^verbatim>\<open>format.Source\<close>, giving its two results. The first
  component of the result is what the method prints on the standard output.
\<close>

definition format ::
  "(string \<Rightarrow> string \<times> string option) \<Rightarrow> generator \<Rightarrow> string \<times> (failure + string)" where
  "format Source g =
     (let (src, err) = Source (header g @ accessors g) in
      case err of
        Some e \<Rightarrow> (src @ NL, Inl (Fatal (''error: format: '' @ e)))
      | None \<Rightarrow> ('''', Inr src))"

text \<open>The generator that \<^verbatim>\<open>main\<close> builds for the package that was loaded: empty buffers
  and empty maps.\<close>

definition new_generator :: "string \<Rightarrow> Package \<Rightarrow> ast_File list \<Rightarrow> generator" where
  "new_generator pname ptypes files =
     \<lparr>w = Accessors, header = '''', accessors = '''', pkg_Name = pname,
      pkg_Types = ptypes, pkg_Syntax = files,
      pkgNameCounts = Map.empty, pkgNames = Map.empty\<rparr>"

text \<open>
  \<^verbatim>\<open>main\<close> from the loaded package on: the standard output, and either how the process
  failed or the bytes it hands to \<^verbatim>\<open>os.WriteFile\<close> for the output file.
\<close>

definition main ::
  "(string \<Rightarrow> string) \<Rightarrow> ((string \<rightharpoonup> string) \<Rightarrow> (string \<times> string) list)
     \<Rightarrow> (string \<Rightarrow> string \<times> string option) \<Rightarrow> string \<Rightarrow> Package \<Rightarrow> ast_File list
     \<Rightarrow> string \<times> (failure + string)" where
  "main quote range_order Source pname ptypes files =
     (case generate quote range_order (new_generator pname ptypes files) of
        Inl e \<Rightarrow> ('''', Inl e)
      | Inr g1 \<Rightarrow> format Source g1)"

section \<open>Command accessor: notions the properties are stated with\<close>

text \<open>What the second loop prints for one token of the tag: a getter for a get marker,
  a setter for a set marker, each named by the marker followed by the method name, and
  nothing for any other token.\<close>

definition accessor_text :: "string \<Rightarrow> string \<Rightarrow> string \<Rightarrow> string \<Rightarrow> string \<Rightarrow> string" where
  "accessor_text recv method ty field arg =
     (if arg = ''get'' \<or> arg = ''Get'' then getter_text recv (arg @ method) ty field
      else if arg = ''set'' \<or> arg = ''Set'' then setter_text recv (arg @ method) ty field
      else '''')"

text \<open>The tokens of a tag that are none of the four markers, in their order.\<close>

definition non_markers :: "string list \<Rightarrow> string list" where
  "non_markers args = filter (\<lambda>a. \<not> marker a) args"

text \<open>The one fatal error of \<^verbatim>\<open>printAccessors\<close>.\<close>

abbreviation multiple_names :: failure where
  "multiple_names \<equiv> Fatal ''error: cannot define multiple accessor names within a tag''"

text \<open>
  The fields that the loops of \<^verbatim>\<open>generate\<close> hand to \<^verbatim>\<open>printAccessors\<close>, in the order of
  the source: for each file, each type declaration, each struct type in it, each field,
  each name of the field.
\<close>

definition field_of :: "string \<Rightarrow> string list list option \<Rightarrow> ast_Field \<Rightarrow> string \<Rightarrow> structField" where
  "field_of tname tparams fld n =
     \<lparr>typeSpecName = tname, typeSpecTypeParams = tparams, name = n, typ' = Type fld, tag = Tag fld\<rparr>"

fun spec_fields :: "ast_Spec \<Rightarrow> structField list" where
  "spec_fields (TypeSpec tname tparams (StructType flds)) =
     concat (map (\<lambda>fld. map (field_of tname tparams fld) (Names fld)) flds)"
| "spec_fields (TypeSpec tname tparams OtherExpr) = []"
| "spec_fields OtherSpec = []"

fun decl_fields :: "ast_Decl \<Rightarrow> structField list" where
  "decl_fields (GenDecl tok specs) =
     (if tok = token_TYPE then concat (map spec_fields specs) else [])"
| "decl_fields FuncDecl = []"

definition all_fields :: "ast_File list \<Rightarrow> structField list" where
  "all_fields files = concat (map (\<lambda>file. concat (map decl_fields file)) files)"

text \<open>What \<^verbatim>\<open>go/ast\<close> promises of a tree it parsed: the specifications of a declaration
  with the token \<^verbatim>\<open>TYPE\<close> are type specifications.\<close>

fun is_TypeSpec :: "ast_Spec \<Rightarrow> bool" where
  "is_TypeSpec (TypeSpec tname tparams ty) = True"
| "is_TypeSpec OtherSpec = False"

fun type_specs_only :: "ast_Decl \<Rightarrow> bool" where
  "type_specs_only (GenDecl tok specs) = (if tok = token_TYPE then list_all is_TypeSpec specs else True)"
| "type_specs_only FuncDecl = True"

definition well_formed :: "ast_File list \<Rightarrow> bool" where
  "well_formed files = list_all (list_all type_specs_only) files"

text \<open>A run of calls of the qualifier, one per package of the list, each on the generator
  that the call before left.\<close>

definition qualify_all :: "generator \<Rightarrow> Package list \<Rightarrow> generator" where
  "qualify_all g pkgs = fold (\<lambda>pkg h. snd (qualifier h pkg)) pkgs g"

text \<open>An order in which a range loop may visit a map: each entry of the map once.\<close>

definition enumerates :: "(string \<times> string) list \<Rightarrow> (string \<rightharpoonup> string) \<Rightarrow> bool" where
  "enumerates entries m = (distinct (map fst entries) \<and> map_of entries = m)"

text \<open>The two groups of the import block: the statements of the entries whose path has
  no dot, and of those whose path has one, each group sorted.\<close>

definition std_group :: "(string \<Rightarrow> string) \<Rightarrow> (string \<times> string) list \<Rightarrow> string list" where
  "std_group quote entries =
     sort (map (\<lambda>(p, n). import_stmt quote p n) (filter (\<lambda>(p, n). \<not> Contains_dot p) entries))"

definition ext_group :: "(string \<Rightarrow> string) \<Rightarrow> (string \<times> string) list \<Rightarrow> string list" where
  "ext_group quote entries =
     sort (map (\<lambda>(p, n). import_stmt quote p n) (filter (\<lambda>(p, n). Contains_dot p) entries))"

section \<open>Command accessor: example inputs\<close>

text \<open>
  An example input: the package \<^verbatim>\<open>app\<close> with
  \<^verbatim>\<open>type User struct { n Widget `accessor:"t"` }\<close> after a function declaration, for a field
  name \<open>n\<close> and a tag value \<open>t\<close>, where \<^verbatim>\<open>Widget\<close> is a type of the package itself.
\<close>

definition example_pkg :: Package where
  "example_pkg = \<lparr>addr = 0, Path = ''example.com/app'', Name = ''app''\<rparr>"

definition example_type :: go_type where
  "example_type = [TypeName (Some example_pkg) ''Widget'']"

definition example_files :: "string \<Rightarrow> string \<Rightarrow> ast_File list" where
  "example_files n t =
     [[FuncDecl,
       GenDecl token_TYPE
         [TypeSpec ''User'' None (StructType [\<lparr>Names = [n], Type = example_type, Tag = Some t\<rparr>])]]]"

definition example_field :: "string \<Rightarrow> string \<Rightarrow> structField" where
  "example_field n t =
     \<lparr>typeSpecName = ''User'', typeSpecTypeParams = None, name = n, typ' = example_type, tag = Some t\<rparr>"

definition example_gen :: generator where
  "example_gen = new_generator ''app'' example_pkg []"

text \<open>Three packages of other modules: two that are both named \<^verbatim>\<open>util\<close>, and one that
  is named \<^verbatim>\<open>util1\<close>.\<close>

definition util_a :: Package where
  "util_a = \<lparr>addr = 1, Path = ''example.com/a/util'', Name = ''util''\<rparr>"

definition util_b :: Package where
  "util_b = \<lparr>addr = 2, Path = ''example.com/b/util'', Name = ''util''\<rparr>"

definition util1_c :: Package where
  "util1_c = \<lparr>addr = 3, Path = ''example.com/c/util1'', Name = ''util1''\<rparr>"

text \<open>A package of the standard library, and the generator after the qualifier has met
  \<^verbatim>\<open>util_b\<close>, that package and \<^verbatim>\<open>util_a\<close>, with two orders of visiting its three entries.\<close>

definition fmt_pkg :: Package where
  "fmt_pkg = \<lparr>addr = 4, Path = ''fmt'', Name = ''fmt''\<rparr>"

definition example_registry :: generator where
  "example_registry = qualify_all example_gen [util_b, fmt_pkg, util_a]"

definition example_entries :: "(string \<times> string) list" where
  "example_entries =
     [(''example.com/a/util'', ''util1''), (''fmt'', ''fmt''), (''example.com/b/util'', ''util'')]"

definition example_entries' :: "(string \<times> string) list" where
  "example_entries' =
     [(''example.com/b/util'', ''util''), (''example.com/a/util'', ''util1''), (''fmt'', ''fmt'')]"

text \<open>A package whose struct has fields of types of these three packages, the last one
  without a tag.\<close>

definition example_imports :: "ast_File list" where
  "example_imports =
     [[GenDecl token_IMPORT [OtherSpec],
       GenDecl token_TYPE
         [TypeSpec ''User'' None
            (StructType
               [\<lparr>Names = [''a''], Type = [TypeName (Some util_b) ''T''], Tag = Some ''get''\<rparr>,
                \<lparr>Names = [''b'', ''c''], Type = [Text ''*'', TypeName (Some util_a) ''T''],
                   Tag = Some ''Get,set''\<rparr>,
                \<lparr>Names = [''d''], Type = [TypeName (Some fmt_pkg) ''Stringer''], Tag = Some ''get,D''\<rparr>,
                \<lparr>Names = [''e''], Type = [TypeName None ''int''], Tag = None\<rparr>])]]]"

section \<open>Properties of sweeping\<close>

lemma sweep_loop_inv:
  "j \<le> i \<Longrightarrow> i \<le> length xs \<Longrightarrow>
   \<exists>ys. sweep_loop alive xs i j = Some (ys, j + length (filter alive (drop i xs)))
      \<and> length ys = length xs
      \<and> take (j + length (filter alive (drop i xs))) ys = take j xs @ filter alive (drop i xs)"
proof (induction alive xs i j rule: sweep_loop.induct)
  case (1 alive xs i j)
  show ?case
  proof (cases "i < length xs")
    case False
    with "1.prems" show ?thesis by simp
  next
    case True
    note lt = True
    have dr: "drop i xs = xs ! i # drop (Suc i) xs"
      using lt by (simp add: Cons_nth_drop_Suc)
    show ?thesis
    proof (cases "alive (xs ! i)")
      case False
      from "1.IH"(2)[OF lt refl False] "1.prems" lt
      obtain ys where
        "sweep_loop alive xs (Suc i) j = Some (ys, j + length (filter alive (drop (Suc i) xs)))"
        "length ys = length xs"
        "take (j + length (filter alive (drop (Suc i) xs))) ys = take j xs @ filter alive (drop (Suc i) xs)"
        by auto
      with lt False dr show ?thesis by simp
    next
      case True
      have jl: "j < length xs" using "1.prems" lt by simp
      let ?xs' = "xs[j := xs ! i]"
      from "1.IH"(1)[OF lt refl True jl] "1.prems" lt
      obtain ys where ys:
        "sweep_loop alive ?xs' (Suc i) (Suc j) = Some (ys, Suc j + length (filter alive (drop (Suc i) ?xs')))"
        "length ys = length ?xs'"
        "take (Suc j + length (filter alive (drop (Suc i) ?xs'))) ys
           = take (Suc j) ?xs' @ filter alive (drop (Suc i) ?xs')"
        by auto
      have d: "drop (Suc i) ?xs' = drop (Suc i) xs"
        using "1.prems" by simp
      have t: "take (Suc j) ?xs' = take j xs @ [xs ! i]"
        using jl by (simp add: take_Suc_conv_app_nth)
      from ys d t lt True jl dr show ?thesis by simp
    qed
  qed
qed

text \<open>
  Claim C9. For every slice, \<^verbatim>\<open>Sweep\<close> returns without a panic, and the slice it leaves
  is exactly the elements of the original that are alive, in their original order; its
  length is the original length less the number of elements that are not alive.
\<close>

theorem Sweep_filter:
  "Sweep alive xs = Some (filter alive xs)
   \<and> length (filter alive xs) = length xs - length (filter (\<lambda>x. \<not> alive x) xs)"
proof -
  from sweep_loop_inv[of 0 0 xs alive]
  obtain ys where
    "sweep_loop alive xs 0 0 = Some (ys, length (filter alive xs))"
    "length ys = length xs"
    "take (length (filter alive xs)) ys = filter alive xs"
    by auto
  then have "Sweep alive xs = Some (filter alive xs)"
    by (simp add: Sweep_def)
  moreover have "length (filter alive xs) = length xs - length (filter (\<lambda>x. \<not> alive x) xs)"
    using sum_length_filter_compl[of alive xs] by simp
  ultimately show ?thesis by simp
qed


lemma length_view [simp]: "length (view p n m) = n"
  by (simp add: view_def)














section \<open>Properties of the generator: buffers and fields\<close>

lemma printf_fields [simp]:
  "w (printf g s) = w g"
  "pkg_Name (printf g s) = pkg_Name g"
  "pkg_Types (printf g s) = pkg_Types g"
  "pkg_Syntax (printf g s) = pkg_Syntax g"
  "pkgNameCounts (printf g s) = pkgNameCounts g"
  "pkgNames (printf g s) = pkgNames g"
  by (simp_all add: printf_def split: writer.split)

lemma printf_Accessors [simp]:
  "w g = Accessors \<Longrightarrow> accessors (printf g s) = accessors g @ s"
  "w g = Accessors \<Longrightarrow> header (printf g s) = header g"
  by (simp_all add: printf_def)

lemma printf_Header [simp]:
  "w g = Header \<Longrightarrow> header (printf g s) = header g @ s"
  "w g = Header \<Longrightarrow> accessors (printf g s) = accessors g"
  by (simp_all add: printf_def)

lemma qualifier_fields:
  "qualifier g pkg = (q, g1) \<Longrightarrow>
     w g1 = w g \<and> header g1 = header g \<and> accessors g1 = accessors g
     \<and> pkg_Name g1 = pkg_Name g \<and> pkg_Types g1 = pkg_Types g \<and> pkg_Syntax g1 = pkg_Syntax g"
  unfolding qualifier_def Let_def
  by (cases "addr pkg = addr (pkg_Types g)"; cases "pkgNames g (Path pkg)") auto

lemma TypeString_fields:
  "TypeString g ty = (r, g1) \<Longrightarrow>
     w g1 = w g \<and> header g1 = header g \<and> accessors g1 = accessors g
     \<and> pkg_Name g1 = pkg_Name g \<and> pkg_Types g1 = pkg_Types g \<and> pkg_Syntax g1 = pkg_Syntax g"
proof (induction g ty arbitrary: r g1 rule: TypeString.induct)
  case (1 g)
  then show ?case by simp
next
  case (2 g s ts)
  obtain r' gb where r': "TypeString g ts = (r', gb)" by (cases "TypeString g ts")
  from "2.prems" r' have "g1 = gb" by simp
  with "2.IH"[OF r'] show ?case by simp
next
  case (3 g n ts)
  obtain r' gb where r': "TypeString g ts = (r', gb)" by (cases "TypeString g ts")
  from "3.prems" r' have "g1 = gb" by simp
  with "3.IH"[OF r'] show ?case by simp
next
  case (4 g pkg n ts)
  obtain q ga where q: "qualifier g pkg = (q, ga)" by (cases "qualifier g pkg")
  obtain r' gb where r': "TypeString ga ts = (r', gb)" by (cases "TypeString ga ts")
  from "4.prems" q r' have "g1 = gb" by simp
  moreover from "4.IH"[OF q[symmetric] refl r'] have
    "w gb = w ga \<and> header gb = header ga \<and> accessors gb = accessors ga
     \<and> pkg_Name gb = pkg_Name ga \<and> pkg_Types gb = pkg_Types ga \<and> pkg_Syntax gb = pkg_Syntax ga" .
  moreover note qualifier_fields[OF q]
  ultimately show ?case by simp
qed

lemma print_loop_fields:
  "w (print_loop g recv method ty field args) = w g
   \<and> pkgNames (print_loop g recv method ty field args) = pkgNames g
   \<and> pkgNameCounts (print_loop g recv method ty field args) = pkgNameCounts g
   \<and> pkg_Types (print_loop g recv method ty field args) = pkg_Types g
   \<and> pkg_Name (print_loop g recv method ty field args) = pkg_Name g
   \<and> pkg_Syntax (print_loop g recv method ty field args) = pkg_Syntax g"
proof (induction args arbitrary: g)
  case Nil
  show ?case by simp
next
  case (Cons arg args)
  show ?case
    using Cons.IH[of "printGetter g recv (arg @ method) ty field"]
      Cons.IH[of "printSetter g recv (arg @ method) ty field"] Cons.IH[of g]
    by (simp add: printGetter_def printSetter_def)
qed

lemma print_loop_text:
  "w g = Accessors \<Longrightarrow>
   accessors (print_loop g recv method ty field args)
     = accessors g @ concat (map (accessor_text recv method ty field) args)
   \<and> header (print_loop g recv method ty field args) = header g"
proof (induction args arbitrary: g)
  case Nil
  show ?case by simp
next
  case (Cons arg args)
  have a: "w (printGetter g recv (arg @ method) ty field) = Accessors"
    and b: "w (printSetter g recv (arg @ method) ty field) = Accessors"
    using Cons.prems by (simp_all add: printGetter_def printSetter_def)
  show ?case
    using Cons.IH[OF a] Cons.IH[OF b] Cons.IH[OF Cons.prems] Cons.prems
    by (simp add: printGetter_def printSetter_def accessor_text_def)
qed

lemma Split_nonempty: "Split s sep \<noteq> []"
  by (induction s) (auto split: list.splits)

lemma printAccessors_unfold:
  assumes "tag f = Some t" and "TrimSpace t \<noteq> ''''"
    and "method_name (name f) (Split (TrimSpace t) (CHR '','')) = Inr m"
    and "TypeString g (typ' f) = (ty, g1)"
  shows "printAccessors g f =
     Inr (print_loop (printf g1 (''// '' @ receiver f @ ''.'' @ name f @ '': '' @ TrimSpace t @ NL))
            (receiver f) m ty (name f) (Split (TrimSpace t) (CHR '','')))"
proof -
  have "length (Split (TrimSpace t) (CHR '','')) \<noteq> 0"
    using Split_nonempty[of "TrimSpace t" "CHR '',''"] by simp
  then show ?thesis
    unfolding printAccessors_def Let_def
    using assms by simp
qed

lemma printAccessors_emits:
  assumes "tag f = Some t" and "TrimSpace t \<noteq> ''''"
    and "method_name (name f) (Split (TrimSpace t) (CHR '','')) = Inr m"
    and "TypeString g (typ' f) = (ty, g1)"
    and "w g = Accessors"
  shows "\<exists>g2. printAccessors g f = Inr g2
     \<and> accessors g2 = accessors g
          @ ''// '' @ receiver f @ ''.'' @ name f @ '': '' @ TrimSpace t @ NL
          @ concat (map (accessor_text (receiver f) m ty (name f)) (Split (TrimSpace t) (CHR '','')))
     \<and> header g2 = header g \<and> w g2 = Accessors
     \<and> pkgNames g2 = pkgNames g1 \<and> pkgNameCounts g2 = pkgNameCounts g1"
proof -
  let ?args = "Split (TrimSpace t) (CHR '','')"
  let ?c = "''// '' @ receiver f @ ''.'' @ name f @ '': '' @ TrimSpace t @ NL"
  let ?g2 = "print_loop (printf g1 ?c) (receiver f) m ty (name f) ?args"
  have w1: "w g1 = Accessors" "accessors g1 = accessors g" "header g1 = header g"
    using TypeString_fields[OF assms(4)] assms(5) by simp_all
  have eq: "printAccessors g f = Inr ?g2"
    by (rule printAccessors_unfold[OF assms(1-4)])
  have w2: "w (printf g1 ?c) = Accessors" using w1 by simp
  have t: "accessors ?g2 = accessors (printf g1 ?c) @ concat (map (accessor_text (receiver f) m ty (name f)) ?args)"
    "header ?g2 = header (printf g1 ?c)"
    using print_loop_text[OF w2, of "receiver f" m ty "name f" ?args] by simp_all
  have fl: "w ?g2 = Accessors" "pkgNames ?g2 = pkgNames g1" "pkgNameCounts ?g2 = pkgNameCounts g1"
    using print_loop_fields[of "printf g1 ?c" "receiver f" m ty "name f" ?args] w1 by simp_all
  have "accessors ?g2 = accessors g @ ?c @ concat (map (accessor_text (receiver f) m ty (name f)) ?args)"
    using t(1) w1 by simp
  moreover have "header ?g2 = header g" using t(2) w1 by simp
  ultimately show ?thesis using eq fl by (intro exI[of _ ?g2]) simp
qed

section \<open>Properties of the tag and of the text printed for a field\<close>

lemma method_loop_char:
  "method_loop m args =
     (if list_ex (\<lambda>a. a \<noteq> '''') (butlast (m # non_markers args))
      then Inl multiple_names
      else Inr (last (m # non_markers args)))"
proof (induction args arbitrary: m)
  case Nil
  show ?case by (simp add: non_markers_def)
next
  case (Cons arg args)
  show ?case
  proof (cases "marker arg")
    case True
    then show ?thesis using Cons.IH[of m] by (simp add: non_markers_def)
  next
    case False
    then show ?thesis using Cons.IH[of arg] by (simp add: non_markers_def)
  qed
qed



lemma printAccessors_skip:
  "tag f = Some t \<Longrightarrow> TrimSpace t = '''' \<Longrightarrow> printAccessors g f = Inr g"
  by (simp add: printAccessors_def)

lemma printAccessors_Inl:
  assumes "tag f = Some t" and "TrimSpace t \<noteq> ''''"
    and "method_name (name f) (Split (TrimSpace t) (CHR '','')) = Inl e"
  shows "printAccessors g f = Inl e"
proof -
  have "length (Split (TrimSpace t) (CHR '','')) \<noteq> 0"
    using Split_nonempty[of "TrimSpace t" "CHR '',''"] by simp
  then show ?thesis
    unfolding printAccessors_def Let_def
    using assms by simp
qed





section \<open>Properties of the loops of generate\<close>


lemma for_each_append:
  "for_each body s (xs @ ys) =
     (case for_each body s xs of Inl e \<Rightarrow> Inl e | Inr s1 \<Rightarrow> for_each body s1 ys)"
  by (induction xs arbitrary: s) (auto split: sum.splits)

lemma for_each_concat:
  "for_each body s (concat xss) = for_each (\<lambda>s1 xs. for_each body s1 xs) s xss"
  by (induction xss arbitrary: s) (auto simp: for_each_append split: sum.splits)

lemma for_each_map:
  "for_each body s (map h xs) = for_each (\<lambda>s1 x. body s1 (h x)) s xs"
  by (induction xs arbitrary: s) (auto split: sum.splits)

lemma for_each_cong:
  "(\<And>s1 x. x \<in> set xs \<Longrightarrow> b1 s1 x = b2 s1 x) \<Longrightarrow> for_each b1 s xs = for_each b2 s xs"
  by (induction xs arbitrary: s) (auto split: sum.splits)

lemma loop_names_flat:
  "loop_names tname tparams g fld
     = for_each printAccessors g (map (field_of tname tparams fld) (Names fld))"
  by (simp add: loop_names_def for_each_map field_of_def)

lemma loop_fields_flat:
  "is_TypeSpec spec \<Longrightarrow> loop_fields g spec = for_each printAccessors g (spec_fields spec)"
proof (cases spec)
  case OtherSpec
  assume "is_TypeSpec spec"
  with OtherSpec show ?thesis by simp
next
  case (TypeSpec tname tparams ty)
  show ?thesis
  proof (cases ty)
    case OtherExpr
    with TypeSpec show ?thesis by (simp add: loop_fields_def)
  next
    case (StructType flds)
    have "for_each (loop_names tname tparams) g flds
        = for_each (\<lambda>s1 fld. for_each printAccessors s1 (map (field_of tname tparams fld) (Names fld))) g flds"
      by (rule for_each_cong) (simp add: loop_names_flat)
    with TypeSpec StructType show ?thesis
      by (simp add: loop_fields_def for_each_concat for_each_map)
  qed
qed

lemma loop_specs_flat:
  "type_specs_only decl \<Longrightarrow> loop_specs g decl = for_each printAccessors g (decl_fields decl)"
proof (cases decl)
  case FuncDecl
  then show ?thesis by (simp add: loop_specs_def)
next
  case (GenDecl tok specs)
  assume wf: "type_specs_only decl"
  show ?thesis
  proof (cases "tok = token_TYPE")
    case False
    with GenDecl show ?thesis by (simp add: loop_specs_def)
  next
    case True
    with wf GenDecl have all: "list_all is_TypeSpec specs" by simp
    have "for_each loop_fields g specs
        = for_each (\<lambda>s1 spec. for_each printAccessors s1 (spec_fields spec)) g specs"
      using all by (intro for_each_cong loop_fields_flat) (simp add: list_all_iff)
    with GenDecl True show ?thesis
      by (simp add: loop_specs_def for_each_concat for_each_map)
  qed
qed

lemma loop_decls_flat:
  assumes "list_all type_specs_only file"
  shows "loop_decls g file = for_each printAccessors g (concat (map decl_fields file))"
proof -
  have "for_each loop_specs g file
      = for_each (\<lambda>s1 decl. for_each printAccessors s1 (decl_fields decl)) g file"
    using assms by (intro for_each_cong loop_specs_flat) (simp add: list_all_iff)
  then show ?thesis
    by (simp add: loop_decls_def for_each_concat for_each_map)
qed

lemma generate_accessors_flat:
  assumes "well_formed (pkg_Syntax g)"
  shows "generate_accessors g
     = for_each printAccessors (g\<lparr>w := Accessors\<rparr>) (all_fields (pkg_Syntax g))"
proof -
  have "for_each loop_decls (g\<lparr>w := Accessors\<rparr>) (pkg_Syntax g)
      = for_each (\<lambda>s1 file. for_each printAccessors s1 (concat (map decl_fields file)))
          (g\<lparr>w := Accessors\<rparr>) (pkg_Syntax g)"
    using assms by (intro for_each_cong loop_decls_flat) (simp add: well_formed_def list_all_iff)
  then show ?thesis
    by (simp add: generate_accessors_def all_fields_def for_each_concat for_each_map)
qed





section \<open>Claims about the accessors of a field\<close>

lemmas example_defs = example_pkg_def example_type_def example_files_def example_field_def
  example_gen_def new_generator_def

lemmas trim_defs = TrimSpace_def white_space_def leading_def

text \<open>
  Claim C1, as amended. For a field whose tag value is not empty after trimming and whose
  method name is built without failure, \<^verbatim>\<open>printAccessors\<close> appends to the accessor buffer
  the comment line with the receiver, the field name and the trimmed tag, and after it one
  method per marker in the order of the tag; the header buffer is untouched. A getter
  has a pointer receiver and no parameter and returns the field; a setter has one
  parameter of the type of the field and assigns it to the field. Each method is named
  by its marker as the tag spells it followed by the method name, so the tag
  \<^verbatim>\<open>get,set\<close> on \<^verbatim>\<open>User.Name\<close> gives \<^verbatim>\<open>getName\<close> and \<^verbatim>\<open>setName\<close>.
\<close>

theorem printAccessors_comment_then_methods:
  assumes "tag f = Some t" and "TrimSpace t \<noteq> ''''"
    and "method_name (name f) (Split (TrimSpace t) (CHR '','')) = Inr m"
    and "TypeString g (typ' f) = (ty, g1)"
    and "w g = Accessors"
  shows "(\<exists>g2. printAccessors g f = Inr g2
           \<and> accessors g2 = accessors g
                @ ''// '' @ receiver f @ ''.'' @ name f @ '': '' @ TrimSpace t @ NL
                @ concat (map (accessor_text (receiver f) m ty (name f)) (Split (TrimSpace t) (CHR '','')))
           \<and> header g2 = header g)
     \<and> accessor_text (receiver f) m ty (name f) ''get''
          = ''func (x *'' @ receiver f @ '') get'' @ m @ ''() '' @ ty @ '' { return x.'' @ name f @ '' }'' @ NL
     \<and> accessor_text (receiver f) m ty (name f) ''Get''
          = ''func (x *'' @ receiver f @ '') Get'' @ m @ ''() '' @ ty @ '' { return x.'' @ name f @ '' }'' @ NL
     \<and> accessor_text (receiver f) m ty (name f) ''set''
          = ''func (x *'' @ receiver f @ '') set'' @ m @ ''(value '' @ ty @ '') { x.'' @ name f @ '' = value }'' @ NL
     \<and> accessor_text (receiver f) m ty (name f) ''Set''
          = ''func (x *'' @ receiver f @ '') Set'' @ m @ ''(value '' @ ty @ '') { x.'' @ name f @ '' = value }'' @ NL"
proof -
  from printAccessors_emits[OF assms] have
    "\<exists>g2. printAccessors g f = Inr g2
           \<and> accessors g2 = accessors g
                @ ''// '' @ receiver f @ ''.'' @ name f @ '': '' @ TrimSpace t @ NL
                @ concat (map (accessor_text (receiver f) m ty (name f)) (Split (TrimSpace t) (CHR '','')))
           \<and> header g2 = header g"
    by blast
  then show ?thesis
    by (simp add: accessor_text_def getter_text_def setter_text_def)
qed

lemma example_trim: "TrimSpace ''get,set'' = ''get,set''"
  by (simp add: trim_defs)

lemma example_get_set:
  "map_sum id accessors (printAccessors example_gen (example_field ''Name'' ''get,set'')) =
     Inr (''// User.Name: get,set'' @ NL
          @ ''func (x *User) getName() Widget { return x.Name }'' @ NL
          @ ''func (x *User) setName(value Widget) { x.Name = value }'' @ NL)"
  by (simp add: printAccessors_def example_trim example_defs method_name_def marker_def
      upper_first_def receiver_def qualifier_def printf_def printGetter_def printSetter_def
      getter_text_def setter_text_def)

theorem printAccessors_comment_then_methods_witness:
  "\<exists>g2. printAccessors example_gen (example_field ''Name'' ''get,set'') = Inr g2
     \<and> accessors g2 =
          ''// User.Name: get,set'' @ NL
          @ ''func (x *User) getName() Widget { return x.Name }'' @ NL
          @ ''func (x *User) setName(value Widget) { x.Name = value }'' @ NL
     \<and> header g2 = ''''"
proof -
  let ?f = "example_field ''Name'' ''get,set''"
  have h1: "tag ?f = Some ''get,set''" by (simp add: example_field_def)
  have h2: "TrimSpace ''get,set'' \<noteq> ''''" by (simp add: example_trim)
  have h3: "method_name (name ?f) (Split (TrimSpace ''get,set'') (CHR '','')) = Inr ''Name''"
    by (simp add: example_trim example_field_def method_name_def marker_def upper_first_def)
  have h4: "TypeString example_gen (typ' ?f) = (''Widget'', example_gen)"
    by (simp add: example_defs qualifier_def)
  have h5: "w example_gen = Accessors" by (simp add: example_defs)
  from printAccessors_comment_then_methods[OF h1 h2 h3 h4 h5]
  show ?thesis
    by (simp add: example_trim accessor_text_def getter_text_def setter_text_def receiver_def
        example_field_def example_gen_def new_generator_def)
qed

text \<open>The claim C1 as it was stated, with \<^verbatim>\<open>GetName\<close> and \<^verbatim>\<open>SetName\<close>, fails on its own
  example.\<close>

theorem printAccessors_lower_case_counterexample:
  "map_sum id accessors (printAccessors example_gen (example_field ''Name'' ''get,set'')) \<noteq>
     Inr (''// User.Name: get,set'' @ NL
          @ ''func (x *User) GetName() Widget { return x.Name }'' @ NL
          @ ''func (x *User) SetName(value Widget) { x.Name = value }'' @ NL)"
  using example_get_set by simp




lemma example_custom_trim: "TrimSpace ''get,Custom'' = ''get,Custom''"
  by (simp add: trim_defs)



text \<open>
  Claim C3, as amended. Each method that \<^verbatim>\<open>printAccessors\<close> prints is named by its marker, as
  the tag spells it, followed by the base name. The base name is the one token of the tag
  that is no marker when there is one and it is not empty; when the tag has no such token,
  or has one that is empty, it is the name of the field with its first character moved to
  upper case if that character is one of the letters a to z.
\<close>

theorem method_named_by_marker_and_base:
  assumes "tag f = Some t" and "TrimSpace t \<noteq> ''''"
    and "args = Split (TrimSpace t) (CHR '','')"
    and "method_name (name f) args = Inr base"
    and "TypeString g (typ' f) = (ty, g1)"
    and "w g = Accessors"
  shows "(\<exists>g2. printAccessors g f = Inr g2
           \<and> accessors g2 = accessors g
                @ ''// '' @ receiver f @ ''.'' @ name f @ '': '' @ TrimSpace t @ NL
                @ concat (map (\<lambda>a. if a = ''get'' \<or> a = ''Get''
                                       then getter_text (receiver f) (a @ base) ty (name f)
                                     else if a = ''set'' \<or> a = ''Set''
                                       then setter_text (receiver f) (a @ base) ty (name f)
                                     else '''') args))
     \<and> (\<forall>b. non_markers args = [b] \<and> b \<noteq> '''' \<longrightarrow> base = b)
     \<and> (non_markers args = [] \<or> non_markers args = [''''] \<longrightarrow>
          (\<exists>c cs. name f = c # cs
             \<and> base = (if CHR ''a'' \<le> c \<and> c \<le> CHR ''z''
                        then char_of (of_char c - (32::nat)) else c) # cs))"
proof -
  have m: "method_name (name f) (Split (TrimSpace t) (CHR '','')) = Inr base"
    using assms(3,4) by simp
  have a: "\<exists>g2. printAccessors g f = Inr g2
           \<and> accessors g2 = accessors g
                @ ''// '' @ receiver f @ ''.'' @ name f @ '': '' @ TrimSpace t @ NL
                @ concat (map (\<lambda>a. if a = ''get'' \<or> a = ''Get''
                                       then getter_text (receiver f) (a @ base) ty (name f)
                                     else if a = ''set'' \<or> a = ''Set''
                                       then setter_text (receiver f) (a @ base) ty (name f)
                                     else '''') args)"
  proof -
    have "accessor_text (receiver f) base ty (name f)
        = (\<lambda>a. if a = ''get'' \<or> a = ''Get''
                  then getter_text (receiver f) (a @ base) ty (name f)
                else if a = ''set'' \<or> a = ''Set''
                  then setter_text (receiver f) (a @ base) ty (name f)
                else '''')"
      by (rule ext) (simp add: accessor_text_def)
    with printAccessors_emits[OF assms(1,2) m assms(5,6)] assms(3) show ?thesis
      by auto
  qed
  have b: "base = b" if "non_markers args = [b]" and "b \<noteq> ''''" for b
    using assms(4) that by (simp add: method_name_def method_loop_char)
  have c: "\<exists>c cs. name f = c # cs
             \<and> base = (if CHR ''a'' \<le> c \<and> c \<le> CHR ''z''
                        then char_of (of_char c - (32::nat)) else c) # cs"
    if "non_markers args = [] \<or> non_markers args = ['''']"
  proof -
    from that have "method_loop '''' args = Inr ''''"
      by (auto simp: method_loop_char)
    with assms(4) have "upper_first (name f) = Inr base"
      by (simp add: method_name_def)
    then show ?thesis
      by (cases "name f") (auto simp: upper_first_def)
  qed
  from a b c show ?thesis by blast
qed

lemma upper_f: "char_of (70::nat) = CHR ''F''"
  by code_simp

theorem method_named_by_marker_and_base_witness:
  "(\<exists>g2. printAccessors example_gen (example_field ''Name'' ''get,Custom'') = Inr g2
      \<and> accessors g2 = ''// User.Name: get,Custom'' @ NL
           @ ''func (x *User) getCustom() Widget { return x.Name }'' @ NL)
   \<and> (\<exists>g2. printAccessors example_gen (example_field ''foo'' ''Get'') = Inr g2
      \<and> accessors g2 = ''// User.foo: Get'' @ NL
           @ ''func (x *User) GetFoo() Widget { return x.foo }'' @ NL)"
proof -
  let ?f = "example_field ''Name'' ''get,Custom''"
  have h1: "tag ?f = Some ''get,Custom''" by (simp add: example_field_def)
  have h2: "TrimSpace ''get,Custom'' \<noteq> ''''" by (simp add: example_custom_trim)
  have h3: "[''get'', ''Custom''] = Split (TrimSpace ''get,Custom'') (CHR '','')"
    by (simp add: example_custom_trim)
  have h4: "method_name (name ?f) [''get'', ''Custom''] = Inr ''Custom''"
    by (simp add: method_name_def marker_def)
  have h5: "TypeString example_gen (typ' ?f) = (''Widget'', example_gen)"
    by (simp add: example_defs qualifier_def)
  have h6: "w example_gen = Accessors" by (simp add: example_defs)
  let ?k = "example_field ''foo'' ''Get''"
  have t: "TrimSpace ''Get'' = ''Get''" by (simp add: trim_defs)
  have k1: "tag ?k = Some ''Get''" by (simp add: example_field_def)
  have k2: "TrimSpace ''Get'' \<noteq> ''''" by (simp add: t)
  have k3: "[''Get''] = Split (TrimSpace ''Get'') (CHR '','')" by (simp add: t)
  have k4: "method_name (name ?k) [''Get''] = Inr ''Foo''"
    by (simp add: method_name_def marker_def upper_first_def example_field_def upper_f)
  have k5: "TypeString example_gen (typ' ?k) = (''Widget'', example_gen)"
    by (simp add: example_defs qualifier_def)
  from method_named_by_marker_and_base[OF h1 h2 h3 h4 h5 h6]
    method_named_by_marker_and_base[OF k1 k2 k3 k4 k5 h6]
  show ?thesis
    by (simp add: example_custom_trim t getter_text_def setter_text_def receiver_def
        example_field_def example_gen_def new_generator_def)
qed

text \<open>The claim C3 as it was stated fails on the tag \<^verbatim>\<open>get,\<close>: the one token that is no
  marker is the empty token after the comma, and the getter is named after the field,
  not by the marker alone.\<close>

theorem empty_base_counterexample:
  "non_markers (Split (TrimSpace ''get,'') (CHR '','')) = ['''']
   \<and> map_sum id accessors (printAccessors example_gen (example_field ''Name'' ''get,'')) =
       Inr (''// User.Name: get,'' @ NL
            @ ''func (x *User) getName() Widget { return x.Name }'' @ NL)"
proof -
  have t: "TrimSpace ''get,'' = ''get,''"
    by (simp add: trim_defs)
  show ?thesis
    by (simp add: printAccessors_def t example_defs method_name_def marker_def non_markers_def
      upper_first_def receiver_def qualifier_def printf_def printGetter_def printSetter_def
      getter_text_def setter_text_def)
qed


section \<open>Claims about the qualifier\<close>

lemma qualifier_own:
  "addr pkg = addr (pkg_Types g) \<Longrightarrow> qualifier g pkg = ('''', g)"
  by (simp add: qualifier_def)

lemma qualifier_known:
  "pkgNames g (Path pkg) = Some nm \<Longrightarrow> addr pkg \<noteq> addr (pkg_Types g) \<Longrightarrow> qualifier g pkg = (nm, g)"
  by (simp add: qualifier_def)

lemma qualifier_keeps:
  assumes "pkgNames g p = Some nm"
  shows "pkgNames (snd (qualifier g pkg)) p = Some nm"
    and "pkg_Types (snd (qualifier g pkg)) = pkg_Types g"
proof -
  show "pkg_Types (snd (qualifier g pkg)) = pkg_Types g"
    using qualifier_fields[of g pkg "fst (qualifier g pkg)" "snd (qualifier g pkg)"] by simp
  show "pkgNames (snd (qualifier g pkg)) p = Some nm"
  proof (cases "addr pkg = addr (pkg_Types g)")
    case True
    then show ?thesis using assms by (simp add: qualifier_def)
  next
    case False
    show ?thesis
    proof (cases "pkgNames g (Path pkg)")
      case (Some a)
      with False assms show ?thesis by (simp add: qualifier_def)
    next
      case None
      with assms have "p \<noteq> Path pkg" by auto
      with False None assms show ?thesis by (simp add: qualifier_def Let_def)
    qed
  qed
qed

lemma qualify_all_keeps:
  "pkgNames g p = Some nm \<Longrightarrow>
     pkgNames (qualify_all g pkgs) p = Some nm \<and> pkg_Types (qualify_all g pkgs) = pkg_Types g"
proof (induction pkgs arbitrary: g)
  case Nil
  then show ?case by (simp add: qualify_all_def)
next
  case (Cons pkg pkgs)
  have "qualify_all g (pkg # pkgs) = qualify_all (snd (qualifier g pkg)) pkgs"
    by (simp add: qualify_all_def)
  with Cons.IH[OF qualifier_keeps(1)[OF Cons.prems, of pkg]] qualifier_keeps(2)[OF Cons.prems, of pkg]
  show ?case by simp
qed

lemma TypeString_keeps:
  "pkgNames g p = Some nm \<Longrightarrow> TypeString g ty = (r, g1) \<Longrightarrow> pkgNames g1 p = Some nm"
proof (induction g ty arbitrary: r g1 rule: TypeString.induct)
  case (1 g)
  then show ?case by simp
next
  case (2 g s ts)
  obtain r' gb where r': "TypeString g ts = (r', gb)" by (cases "TypeString g ts")
  from "2.prems" r' have "g1 = gb" by simp
  with "2.IH"[OF "2.prems"(1) r'] show ?case by simp
next
  case (3 g n ts)
  obtain r' gb where r': "TypeString g ts = (r', gb)" by (cases "TypeString g ts")
  from "3.prems" r' have "g1 = gb" by simp
  with "3.IH"[OF "3.prems"(1) r'] show ?case by simp
next
  case (4 g pkg n ts)
  obtain q ga where q: "qualifier g pkg = (q, ga)" by (cases "qualifier g pkg")
  obtain r' gb where r': "TypeString ga ts = (r', gb)" by (cases "TypeString ga ts")
  from "4.prems" q r' have "g1 = gb" by simp
  moreover have "pkgNames ga p = Some nm"
    using qualifier_keeps(1)[OF "4.prems"(1), of pkg] q by simp
  ultimately show ?case using "4.IH"[OF q[symmetric] refl _ r'] by simp
qed

lemma printAccessors_keeps:
  assumes "pkgNames g p = Some nm" and "printAccessors g f = Inr g2"
  shows "pkgNames g2 p = Some nm \<and> pkg_Types g2 = pkg_Types g"
proof (cases "tag f")
  case None
  with assms show ?thesis by (simp add: printAccessors_def)
next
  case (Some t)
  show ?thesis
  proof (cases "TrimSpace t = ''''")
    case True
    with assms printAccessors_skip[OF Some True, of g] show ?thesis by simp
  next
    case False
    show ?thesis
    proof (cases "method_name (name f) (Split (TrimSpace t) (CHR '',''))")
      case (Inl e)
      with printAccessors_Inl[OF Some False Inl, of g] assms show ?thesis by simp
    next
      case (Inr m)
      obtain ty g1 where ts: "TypeString g (typ' f) = (ty, g1)"
        by (cases "TypeString g (typ' f)")
      let ?c = "''// '' @ receiver f @ ''.'' @ name f @ '': '' @ TrimSpace t @ NL"
      have "g2 = print_loop (printf g1 ?c) (receiver f) m ty (name f) (Split (TrimSpace t) (CHR '',''))"
        using printAccessors_unfold[OF Some False Inr ts] assms(2) by simp
      then have "pkgNames g2 = pkgNames g1" and "pkg_Types g2 = pkg_Types g1"
        using print_loop_fields[of "printf g1 ?c" "receiver f" m ty "name f" "Split (TrimSpace t) (CHR '','')"]
        by simp_all
      with TypeString_keeps[OF assms(1) ts] TypeString_fields[OF ts] show ?thesis by simp
    qed
  qed
qed

lemma for_each_printAccessors_keeps:
  "pkgNames g p = Some nm \<Longrightarrow> for_each printAccessors g fs = Inr g2 \<Longrightarrow>
     pkgNames g2 p = Some nm \<and> pkg_Types g2 = pkg_Types g"
proof (induction fs arbitrary: g)
  case Nil
  then show ?case by simp
next
  case (Cons f fs)
  from Cons.prems(2) obtain g1 where g1: "printAccessors g f = Inr g1"
    and rest: "for_each printAccessors g1 fs = Inr g2"
    by (auto split: sum.splits)
  from printAccessors_keeps[OF Cons.prems(1) g1] Cons.IH[OF _ rest]
  show ?case by simp
qed

text \<open>
  Claim C5. Once a path has a name, every later call of the qualifier with a package of
  that path returns that name and leaves the generator, and so both maps, as they are,
  whichever packages were qualified and whichever fields were processed in between. (The
  package is not the one being generated: for that one the qualifier answers before it
  looks at the maps, and no name is ever recorded.)
\<close>

theorem qualifier_write_once:
  assumes "pkgNames g (Path pkg) = Some nm" and "addr pkg \<noteq> addr (pkg_Types g)"
  shows "qualifier g pkg = (nm, g)
     \<and> qualifier (qualify_all g pkgs) pkg = (nm, qualify_all g pkgs)
     \<and> (\<forall>g2. for_each printAccessors g fs = Inr g2 \<longrightarrow> qualifier g2 pkg = (nm, g2))"
proof -
  have a: "qualifier g pkg = (nm, g)"
    by (rule qualifier_known[OF assms])
  have b: "qualifier (qualify_all g pkgs) pkg = (nm, qualify_all g pkgs)"
    using qualify_all_keeps[OF assms(1), of pkgs] assms(2)
    by (intro qualifier_known) simp_all
  have c: "qualifier g2 pkg = (nm, g2)" if "for_each printAccessors g fs = Inr g2" for g2
    using for_each_printAccessors_keeps[OF assms(1) that] assms(2)
    by (intro qualifier_known) simp_all
  from a b c show ?thesis by blast
qed

theorem qualifier_write_once_witness:
  "qualifier (qualify_all (qualify_all example_gen [util_a]) [util_b, util1_c, util_a]) util_a
     = (''util'', qualify_all (qualify_all example_gen [util_a]) [util_b, util1_c, util_a])
   \<and> (\<exists>g2. for_each printAccessors (qualify_all example_gen [util_a])
               [example_field ''Name'' ''get,set''] = Inr g2 \<and> qualifier g2 util_a = (''util'', g2))"
proof -
  let ?g = "qualify_all example_gen [util_a]"
  have h1: "pkgNames ?g (Path util_a) = Some ''util''"
    by (simp add: qualify_all_def qualifier_def Let_def example_defs util_a_def count_of_def)
  have h2: "addr util_a \<noteq> addr (pkg_Types ?g)"
    by (simp add: qualify_all_def qualifier_def Let_def example_defs util_a_def count_of_def)
  have h3: "\<exists>g2. for_each printAccessors ?g [example_field ''Name'' ''get,set''] = Inr g2"
    by (simp add: printAccessors_def example_trim example_field_def Let_def split_def
        method_name_def marker_def upper_first_def)
  from qualifier_write_once[OF h1 h2, of "[util_b, util1_c, util_a]" "[example_field ''Name'' ''get,set'']"] h3
  show ?thesis by blast
qed

text \<open>Of two packages with one name and two paths that the qualifier has not met, in a
  generator that has not counted the name, the first is given the name and the second
  the name followed by 1.\<close>

lemma qualifier_second_suffix:
  assumes "addr p1 \<noteq> addr (pkg_Types g)" and "addr p2 \<noteq> addr (pkg_Types g)"
    and "Name p2 = Name p1" and "Path p2 \<noteq> Path p1"
    and "pkgNames g (Path p1) = None" and "pkgNames g (Path p2) = None"
    and "pkgNameCounts g (Name p1) = None"
  shows "fst (qualifier g p1) = Name p1
     \<and> fst (qualifier (snd (qualifier g p1)) p2) = Name p1 @ ''1''"
  using assms by (simp add: qualifier_def Let_def count_of_def digit_def)

text \<open>
  Claim C4 at the input on which the program departs from it. The qualifier answers the
  empty string for the package being generated, \<^verbatim>\<open>util\<close> for the first package named
  \<^verbatim>\<open>util\<close> and \<^verbatim>\<open>util1\<close> for the second; the package that is itself named \<^verbatim>\<open>util1\<close> then
  gets \<^verbatim>\<open>util1\<close> as well, since its own count is still zero: two paths with one name.
\<close>

theorem qualifier_name_collision:
  "fst (qualifier example_gen example_pkg) = ''''
   \<and> fst (qualifier example_gen util_a) = ''util''
   \<and> fst (qualifier (qualify_all example_gen [util_a]) util_b) = ''util1''
   \<and> fst (qualifier (qualify_all example_gen [util_a, util_b]) util1_c) = ''util1''
   \<and> pkgNames (qualify_all example_gen [util_a, util_b, util1_c]) (Path util_b) = Some ''util1''
   \<and> pkgNames (qualify_all example_gen [util_a, util_b, util1_c]) (Path util1_c) = Some ''util1''
   \<and> Path util_b \<noteq> Path util1_c"
  by (simp add: qualify_all_def qualifier_def Let_def example_defs util_a_def util_b_def util1_c_def
      count_of_def digit_def)


section \<open>Claims about the header and the whole run\<close>

lemma import_loop_groups:
  "import_loop quote entries std ext =
     (std @ map (\<lambda>(p, n). import_stmt quote p n) (filter (\<lambda>(p, n). \<not> Contains_dot p) entries),
      ext @ map (\<lambda>(p, n). import_stmt quote p n) (filter (\<lambda>(p, n). Contains_dot p) entries))"
proof (induction entries arbitrary: std ext)
  case Nil
  show ?case by simp
next
  case (Cons e entries)
  obtain p n where e: "e = (p, n)" by (cases e)
  show ?case
    using Cons.IH[of std "ext @ [import_stmt quote p n]"] Cons.IH[of "std @ [import_stmt quote p n]" ext]
    by (simp add: e Let_def)
qed

lemma fold_printf_Header:
  "w g = Header \<Longrightarrow>
     header (fold (\<lambda>stmt h. printf h stmt) xs g) = header g @ concat xs
     \<and> accessors (fold (\<lambda>stmt h. printf h stmt) xs g) = accessors g
     \<and> w (fold (\<lambda>stmt h. printf h stmt) xs g) = Header"
proof (induction xs arbitrary: g)
  case Nil
  then show ?case by simp
next
  case (Cons x xs)
  have "w (printf g x) = Header" using Cons.prems by simp
  from Cons.IH[OF this] Cons.prems show ?case by simp
qed

lemma generate_header_text:
  "header (generate_header quote entries g) =
     header g @ ''// Code generated by accessor; DO NOT EDIT.'' @ NL @ NL
       @ ''package '' @ pkg_Name g @ NL
       @ ''import ('' @ NL @ concat (std_group quote entries) @ NL
       @ concat (ext_group quote entries) @ '')'' @ NL
   \<and> accessors (generate_header quote entries g) = accessors g"
proof -
  let ?g1 = "g\<lparr>w := Header\<rparr>"
  let ?g2 = "printf ?g1 (''// Code generated by accessor; DO NOT EDIT.'' @ NL)"
  let ?g3 = "printf ?g2 NL"
  let ?g4 = "printf ?g3 (''package '' @ pkg_Name ?g3)"
  let ?g5 = "printf ?g4 NL"
  let ?g6 = "printf ?g5 (''import ('' @ NL)"
  let ?g7 = "fold (\<lambda>stmt h. printf h stmt) (std_group quote entries) ?g6"
  let ?g8 = "printf ?g7 NL"
  let ?g9 = "fold (\<lambda>stmt h. printf h stmt) (ext_group quote entries) ?g8"
  have eq: "generate_header quote entries g = printf ?g9 ('')'' @ NL)"
    by (simp add: generate_header_def import_loop_groups std_group_def ext_group_def Let_def)
  have w6: "w ?g6 = Header" by simp
  have h6: "header ?g6 = header g @ ''// Code generated by accessor; DO NOT EDIT.'' @ NL @ NL
       @ ''package '' @ pkg_Name g @ NL @ ''import ('' @ NL"
    and a6: "accessors ?g6 = accessors g"
    by simp_all
  note f7 = fold_printf_Header[OF w6, of "std_group quote entries"]
  have w8: "w ?g8 = Header" using f7 by simp
  have h8: "header ?g8 = header ?g6 @ concat (std_group quote entries) @ NL"
    and a8: "accessors ?g8 = accessors g"
    using f7 a6 by simp_all
  note f9 = fold_printf_Header[OF w8, of "ext_group quote entries"]
  have "header (printf ?g9 ('')'' @ NL)) = header ?g8 @ concat (ext_group quote entries) @ '')'' @ NL"
    and "accessors (printf ?g9 ('')'' @ NL)) = accessors g"
    using f9 a8 by simp_all
  then show ?thesis
    unfolding eq h8 h6 by simp
qed

lemma enumerates_set:
  "enumerates entries m \<Longrightarrow> set entries = {(p, n). m p = Some n}"
  by (auto simp: enumerates_def)

lemma enumerates_distinct:
  "enumerates entries m \<Longrightarrow> distinct entries"
  by (simp add: enumerates_def distinct_map)

text \<open>
  Claim C6. Whatever the order in which the map is visited, the header that
  \<^verbatim>\<open>generate\<close> prints ends with the import block: the opening line, the statements of the
  recorded paths that have no dot, one empty line, the statements of the recorded paths
  that have a dot, and the closing line. Each group is sorted and holds one statement for
  each of its paths and nothing else. A statement is a tab, the alias, a space, the
  quoted path and a newline, and the alias is left empty exactly for a name that is the
  last element of its path.
\<close>

theorem import_block_groups:
  assumes "enumerates entries (pkgNames g)"
  shows "header (generate_header quote entries g) =
           header g @ ''// Code generated by accessor; DO NOT EDIT.'' @ NL @ NL
             @ ''package '' @ pkg_Name g @ NL
             @ ''import ('' @ NL @ concat (std_group quote entries) @ NL
             @ concat (ext_group quote entries) @ '')'' @ NL
     \<and> sorted (std_group quote entries) \<and> sorted (ext_group quote entries)
     \<and> set (std_group quote entries)
          = {import_stmt quote p n | p n. pkgNames g p = Some n \<and> \<not> Contains_dot p}
     \<and> set (ext_group quote entries)
          = {import_stmt quote p n | p n. pkgNames g p = Some n \<and> Contains_dot p}
     \<and> length (std_group quote entries) = card {p. p \<in> dom (pkgNames g) \<and> \<not> Contains_dot p}
     \<and> length (ext_group quote entries) = card {p. p \<in> dom (pkgNames g) \<and> Contains_dot p}
     \<and> import_stmt quote p n =
          (if n = Base p then TAB @ '' '' @ quote p @ NL else TAB @ n @ '' '' @ quote p @ NL)"
proof -
  note s = enumerates_set[OF assms]
  have d: "distinct (map fst entries)" using assms by (simp add: enumerates_def)
  have a: "set (std_group quote entries)
          = {import_stmt quote p n | p n. pkgNames g p = Some n \<and> \<not> Contains_dot p}"
    unfolding std_group_def using s by (auto simp: image_iff)
  have b: "set (ext_group quote entries)
          = {import_stmt quote p n | p n. pkgNames g p = Some n \<and> Contains_dot p}"
    unfolding ext_group_def using s by (auto simp: image_iff)
  have len: "length (filter (\<lambda>(p, n). P p) entries) = card {p. p \<in> dom (pkgNames g) \<and> P p}"
    for P :: "string \<Rightarrow> bool"
  proof -
    have "filter (\<lambda>(p, n). P p) entries = filter (P \<circ> fst) entries"
      by (rule filter_cong) auto
    then have "length (filter (\<lambda>(p, n). P p) entries) = length (filter P (map fst entries))"
      by (simp add: filter_map)
    also have "\<dots> = card (set (filter P (map fst entries)))"
    proof -
      have "distinct (filter P (map fst entries))" using d by (rule distinct_filter)
      then show ?thesis by (rule distinct_card[symmetric])
    qed
    also have "set (filter P (map fst entries)) = {p. p \<in> dom (pkgNames g) \<and> P p}"
      using s by (auto simp: image_iff)
    finally show ?thesis .
  qed
  have c: "length (std_group quote entries) = card {p. p \<in> dom (pkgNames g) \<and> \<not> Contains_dot p}"
    using len[of "\<lambda>p. \<not> Contains_dot p"] by (simp add: std_group_def)
  have e: "length (ext_group quote entries) = card {p. p \<in> dom (pkgNames g) \<and> Contains_dot p}"
    using len[of Contains_dot] by (simp add: ext_group_def)
  have f: "import_stmt quote p n =
          (if n = Base p then TAB @ '' '' @ quote p @ NL else TAB @ n @ '' '' @ quote p @ NL)"
    by (simp add: import_stmt_def)
  from generate_header_text[of quote entries g] a b c e f show ?thesis
    by (simp add: std_group_def ext_group_def)
qed

lemma example_registry_names:
  "pkgNames example_registry =
     [''example.com/b/util'' \<mapsto> ''util'', ''fmt'' \<mapsto> ''fmt'', ''example.com/a/util'' \<mapsto> ''util1'']"
  by (simp add: example_registry_def qualify_all_def qualifier_def Let_def example_defs
      util_a_def util_b_def fmt_pkg_def count_of_def digit_def)

theorem import_block_groups_witness:
  "enumerates example_entries (pkgNames example_registry)
   \<and> header (generate_header quote_plain example_entries example_registry) =
       ''// Code generated by accessor; DO NOT EDIT.'' @ NL @ NL
       @ ''package app'' @ NL
       @ ''import ('' @ NL
       @ TAB @ '' '' @ [CHR 0x22] @ ''fmt'' @ [CHR 0x22] @ NL
       @ NL
       @ TAB @ '' '' @ [CHR 0x22] @ ''example.com/b/util'' @ [CHR 0x22] @ NL
       @ TAB @ ''util1 '' @ [CHR 0x22] @ ''example.com/a/util'' @ [CHR 0x22] @ NL
       @ '')'' @ NL"
proof -
  have h: "enumerates example_entries (pkgNames example_registry)"
    unfolding example_registry_names
    by (auto simp: enumerates_def example_entries_def fun_eq_iff)
  have s: "std_group quote_plain example_entries = [TAB @ '' '' @ [CHR 0x22] @ ''fmt'' @ [CHR 0x22] @ NL]"
    by (simp add: std_group_def example_entries_def Contains_dot_def import_stmt_def Base_def
        quote_plain_def)
  have e: "ext_group quote_plain example_entries =
      [TAB @ '' '' @ [CHR 0x22] @ ''example.com/b/util'' @ [CHR 0x22] @ NL,
       TAB @ ''util1 '' @ [CHR 0x22] @ ''example.com/a/util'' @ [CHR 0x22] @ NL]"
    by (simp add: ext_group_def example_entries_def Contains_dot_def import_stmt_def Base_def
        quote_plain_def)
  have n: "pkg_Name example_registry = ''app''" "header example_registry = ''''"
    by (simp_all add: example_registry_def qualify_all_def qualifier_def Let_def example_defs
      util_a_def util_b_def fmt_pkg_def count_of_def digit_def)
  from import_block_groups[OF h, of quote_plain] h show ?thesis
    by (simp add: s e n)
qed

lemma sort_enumerations:
  assumes "enumerates e1 m" and "enumerates e2 m"
  shows "sort (map h (filter P e1)) = sort (map h (filter P e2))"
proof -
  have "set e1 = set e2"
    using enumerates_set[OF assms(1)] enumerates_set[OF assms(2)] by simp
  then have "mset e1 = mset e2"
    using enumerates_distinct[OF assms(1)] enumerates_distinct[OF assms(2)]
    by (simp add: set_eq_iff_mset_eq_distinct)
  then have "mset (map h (filter P e1)) = mset (map h (filter P e2))"
    by simp
  then have "mset (sort (map h (filter P e2))) = mset (map h (filter P e1))"
    by simp
  then show ?thesis
    by (rule properties_for_sort) simp
qed

lemma generate_header_order:
  assumes "enumerates e1 (pkgNames g)" and "enumerates e2 (pkgNames g)"
  shows "generate_header quote e1 g = generate_header quote e2 g"
proof -
  have "import_loop quote e1 [] [] = (a, b) \<Longrightarrow> import_loop quote e2 [] [] = (c, d)
      \<Longrightarrow> sort a = sort c \<and> sort b = sort d" for a b c d
    using sort_enumerations[OF assms, of "\<lambda>(p, n). import_stmt quote p n" "\<lambda>(p, n). \<not> Contains_dot p"]
      sort_enumerations[OF assms, of "\<lambda>(p, n). import_stmt quote p n" "\<lambda>(p, n). Contains_dot p"]
    by (simp add: import_loop_groups)
  then show ?thesis
    unfolding generate_header_def Let_def
    by (cases "import_loop quote e1 [] []"; cases "import_loop quote e2 [] []") simp
qed

text \<open>
  Claim C7. The output does not depend on the order in which the run time visits the map
  of names: two runs that differ only in that order end alike, with the same bytes for the
  file or the same failure. And the fields are handed to \<^verbatim>\<open>printAccessors\<close>, which appends
  to the accessor buffer, in the order of the source.
\<close>

theorem generation_deterministic:
  assumes "\<And>g1. generate_accessors (new_generator pname ptypes files) = Inr g1 \<Longrightarrow>
             enumerates (order1 (pkgNames g1)) (pkgNames g1)
             \<and> enumerates (order2 (pkgNames g1)) (pkgNames g1)"
  shows "main quote order1 Source pname ptypes files = main quote order2 Source pname ptypes files
     \<and> (well_formed files \<longrightarrow>
          generate_accessors (new_generator pname ptypes files)
            = for_each printAccessors (new_generator pname ptypes files) (all_fields files))"
proof -
  let ?g = "new_generator pname ptypes files"
  have a: "generate quote order1 ?g = generate quote order2 ?g"
  proof (cases "generate_accessors ?g")
    case (Inl e)
    then show ?thesis by (simp add: generate_def)
  next
    case (Inr g1)
    from assms[OF Inr] have "generate_header quote (order1 (pkgNames g1)) g1
        = generate_header quote (order2 (pkgNames g1)) g1"
      by (intro generate_header_order) simp_all
    with Inr show ?thesis by (simp add: generate_def)
  qed
  have b: "generate_accessors ?g = for_each printAccessors ?g (all_fields files)"
    if "well_formed files"
  proof -
    have "pkg_Syntax ?g = files" and "?g\<lparr>w := Accessors\<rparr> = ?g"
      by (simp_all add: new_generator_def)
    with generate_accessors_flat[of ?g] that show ?thesis by simp
  qed
  from a b show ?thesis by (simp add: main_def)
qed

lemma example_imports_accessors:
  "\<exists>g1. generate_accessors (new_generator ''app'' example_pkg example_imports) = Inr g1
     \<and> pkgNames g1 = [''example.com/b/util'' \<mapsto> ''util'', ''example.com/a/util'' \<mapsto> ''util1'',
                       ''fmt'' \<mapsto> ''fmt'']
     \<and> header g1 = '''' \<and> pkg_Name g1 = ''app''
     \<and> accessors g1 =
          ''// User.a: get'' @ NL
          @ ''func (x *User) getA() util.T { return x.a }'' @ NL
          @ ''// User.b: Get,set'' @ NL
          @ ''func (x *User) GetB() *util1.T { return x.b }'' @ NL
          @ ''func (x *User) setB(value *util1.T) { x.b = value }'' @ NL
          @ ''// User.c: Get,set'' @ NL
          @ ''func (x *User) GetC() *util1.T { return x.c }'' @ NL
          @ ''func (x *User) setC(value *util1.T) { x.c = value }'' @ NL
          @ ''// User.d: get,D'' @ NL
          @ ''func (x *User) getD() fmt.Stringer { return x.d }'' @ NL"
proof -
  have t: "TrimSpace ''get'' = ''get''" "TrimSpace ''Get,set'' = ''Get,set''"
    "TrimSpace ''get,D'' = ''get,D''"
    by (simp_all add: trim_defs)
  have u: "char_of (65::nat) = CHR ''A''" "char_of (66::nat) = CHR ''B''" "char_of (67::nat) = CHR ''C''"
    by code_simp+
  show ?thesis
    by (simp add: generate_accessors_def loop_decls_def loop_specs_def loop_fields_def loop_names_def
      printAccessors_def t u method_name_def marker_def upper_first_def receiver_def
      qualifier_def Let_def count_of_def digit_def printf_def printGetter_def printSetter_def
      getter_text_def setter_text_def example_imports_def example_defs util_a_def util_b_def
      fmt_pkg_def)
qed

theorem generation_deterministic_witness:
  "main quote_plain (\<lambda>m. example_entries) (\<lambda>s. (s, None)) ''app'' example_pkg example_imports
     = main quote_plain (\<lambda>m. example_entries') (\<lambda>s. (s, None)) ''app'' example_pkg example_imports
   \<and> generate_accessors (new_generator ''app'' example_pkg example_imports)
       = for_each printAccessors (new_generator ''app'' example_pkg example_imports)
           (all_fields example_imports)"
proof -
  obtain G where G: "generate_accessors (new_generator ''app'' example_pkg example_imports) = Inr G"
    and n: "pkgNames G = [''example.com/b/util'' \<mapsto> ''util'', ''example.com/a/util'' \<mapsto> ''util1'',
                       ''fmt'' \<mapsto> ''fmt'']"
    using example_imports_accessors by blast
  have e: "enumerates example_entries (pkgNames G) \<and> enumerates example_entries' (pkgNames G)"
    unfolding n by (auto simp: enumerates_def example_entries_def example_entries'_def fun_eq_iff)
  have h: "\<And>g1. generate_accessors (new_generator ''app'' example_pkg example_imports) = Inr g1 \<Longrightarrow>
             enumerates ((\<lambda>m. example_entries) (pkgNames g1)) (pkgNames g1)
             \<and> enumerates ((\<lambda>m. example_entries') (pkgNames g1)) (pkgNames g1)"
    using G e by simp
  have wf: "well_formed example_imports"
    by (simp add: well_formed_def example_imports_def)
  from generation_deterministic[of "''app''" example_pkg example_imports "\<lambda>m. example_entries"
      "\<lambda>m. example_entries'" quote_plain "\<lambda>s. (s, None)", OF h] wf
  show ?thesis by simp
qed

text \<open>
  Claim C8 at an input on which the program departs from it. The tag \<^verbatim>\<open>get,a b\<close> makes the
  generator print a method named \<^verbatim>\<open>geta b\<close>, which is no Go; \<^verbatim>\<open>format.Source\<close> answers such
  a text with no bytes and an error. \<^verbatim>\<open>g.format\<close> prints the bytes it got back, so the
  standard output is one empty line and the text that was generated is not shown.
\<close>

theorem format_prints_no_source:
  "map_sum id (\<lambda>g1. header g1 @ accessors g1)
     (generate quote_plain (\<lambda>m. []) (new_generator ''app'' example_pkg (example_files ''Name'' ''get,a b'')))
     = Inr (''// Code generated by accessor; DO NOT EDIT.'' @ NL @ NL
            @ ''package app'' @ NL
            @ ''import ('' @ NL @ NL @ '')'' @ NL
            @ ''// User.Name: get,a b'' @ NL
            @ ''func (x *User) geta b() Widget { return x.Name }'' @ NL)
   \<and> main quote_plain (\<lambda>m. []) (\<lambda>s. ('''', Some ''10:21: expected ( found b''))
         ''app'' example_pkg (example_files ''Name'' ''get,a b'')
     = (NL, Inl (Fatal ''error: format: 10:21: expected ( found b''))"
proof -
  have t: "TrimSpace ''get,a b'' = ''get,a b''"
    by (simp add: trim_defs)
  let ?g = "new_generator ''app'' example_pkg (example_files ''Name'' ''get,a b'')"
  have "\<exists>g1. generate_accessors ?g = Inr g1 \<and> header g1 = '''' \<and> pkg_Name g1 = ''app''
          \<and> accessors g1 = ''// User.Name: get,a b'' @ NL
                @ ''func (x *User) geta b() Widget { return x.Name }'' @ NL"
    by (simp add: generate_accessors_def loop_decls_def loop_specs_def loop_fields_def loop_names_def
      printAccessors_def t method_name_def marker_def upper_first_def receiver_def
      qualifier_def Let_def printf_def printGetter_def printSetter_def
      getter_text_def setter_text_def example_defs)
  then obtain g1 where g1: "generate_accessors ?g = Inr g1" and h: "header g1 = ''''"
    and n: "pkg_Name g1 = ''app''"
    and a: "accessors g1 = ''// User.Name: get,a b'' @ NL
                @ ''func (x *User) geta b() Widget { return x.Name }'' @ NL"
    by blast
  have gen: "generate quote_plain (\<lambda>m. []) ?g = Inr (generate_header quote_plain [] g1)"
    using g1 by (simp add: generate_def)
  have hdr: "header (generate_header quote_plain [] g1) =
      ''// Code generated by accessor; DO NOT EDIT.'' @ NL @ NL
            @ ''package app'' @ NL
            @ ''import ('' @ NL @ NL @ '')'' @ NL"
    and acc: "accessors (generate_header quote_plain [] g1) = accessors g1"
    using generate_header_text[of quote_plain "[]" g1] h n
    by (simp_all add: std_group_def ext_group_def)
  show ?thesis
    unfolding main_def gen
    by (simp add: format_def hdr acc a)
qed

end
